theory Spec2Isabelle
  imports Complex_Main "HOL-Library.Log_Nat"
begin

section \<open>Python and NumPy values\<close>

text \<open>
  The herd projection system is three Python files: \<^verbatim>\<open>projection_model.py\<close> (the
  two-cohort recurrence and the error metrics), \<^verbatim>\<open>db_manager.py\<close> (the SQLite
  store) and \<^verbatim>\<open>app.py\<close> (the Streamlit pages that call both). This theory embeds
  the first two.

  Python exceptions are values of \<open>py_error\<close>; a function that can raise returns
  \<open>py_error + 'a\<close> with \<open>Inl\<close> for the exception.
\<close>

datatype py_error = OverflowError | ValueError | IndexError

subsection \<open>Binary64 floating point\<close>

text \<open>
  A Python \<^verbatim>\<open>float\<close> and a NumPy \<^verbatim>\<open>float64\<close> are IEEE 754 binary64 numbers.
  \<open>Fin m e\<close> is the finite number \<open>m * 2 ^ e\<close>, kept in lowest terms (\<open>m\<close> odd,
  or \<open>Fin 0 0\<close> for zero), so that two finite values are the same number exactly
  when they are the same term. The two zeros of IEEE 754 are identified: Python
  compares them equal and nothing here divides a non-zero number by zero.
  Every operation computes the exact result on integers and rounds it once, to
  nearest with ties to even, to 53 significant bits (fewer for subnormals).
\<close>

datatype float64 = Fin int int | PInf | NInf | NaN

function normal :: "int \<Rightarrow> int \<Rightarrow> float64" where
  "normal m e =
     (if m = 0 then Fin 0 0
      else if even m then normal (m div 2) (e + 1)
      else Fin m e)"
  by pat_completeness auto
termination
  by (relation "measure (\<lambda>(m, e). nat \<bar>m\<bar>)") auto

declare normal.simps [simp del]

text \<open>\<open>round_shift m k\<close> is \<open>m / 2 ^ k\<close> rounded to the nearest integer, ties to even.\<close>

definition round_shift :: "int \<Rightarrow> nat \<Rightarrow> int" where
  "round_shift m k =
     (let d = 2 ^ k; q = m div d; r = m mod d
      in if 2 * r < d then q
         else if d < 2 * r then q + 1
         else if even q then q else q + 1)"

text \<open>
  \<open>fl m e\<close> rounds the exact value \<open>m * 2 ^ e\<close> to binary64. \<open>t\<close> is the exponent
  of the last bit that is kept: 53 bits below the leading bit, and never below
  \<open>2 ^ - 1074\<close>, the smallest subnormal. A result of magnitude \<open>2 ^ 1024\<close> or more
  is an infinity.
\<close>

definition fl :: "int \<Rightarrow> int \<Rightarrow> float64" where
  "fl m e =
     (if m = 0 then Fin 0 0
      else
        let t = max (e + bitlen \<bar>m\<bar> - 53) (- 1074);
            n = (if e < t then round_shift m (nat (t - e)) else m);
            t' = (if e < t then t else e)
        in if 1024 < bitlen \<bar>n\<bar> + t' then (if 0 < m then PInf else NInf)
           else normal n t')"

fun fsgn :: "float64 \<Rightarrow> int" where
  "fsgn (Fin m e) = sgn m"
| "fsgn PInf = 1"
| "fsgn NInf = - 1"
| "fsgn NaN = 0"

fun fneg :: "float64 \<Rightarrow> float64" where
  "fneg (Fin m e) = Fin (- m) e"
| "fneg PInf = NInf"
| "fneg NInf = PInf"
| "fneg NaN = NaN"

fun fabs :: "float64 \<Rightarrow> float64" where
  "fabs (Fin m e) = Fin \<bar>m\<bar> e"
| "fabs PInf = PInf"
| "fabs NInf = PInf"
| "fabs NaN = NaN"

fun fadd :: "float64 \<Rightarrow> float64 \<Rightarrow> float64" where
  "fadd NaN _ = NaN"
| "fadd _ NaN = NaN"
| "fadd PInf NInf = NaN"
| "fadd NInf PInf = NaN"
| "fadd PInf _ = PInf"
| "fadd _ PInf = PInf"
| "fadd NInf _ = NInf"
| "fadd _ NInf = NInf"
| "fadd (Fin m1 e1) (Fin m2 e2) =
     (let e = min e1 e2
      in fl (m1 * 2 ^ nat (e1 - e) + m2 * 2 ^ nat (e2 - e)) e)"

definition fsub :: "float64 \<Rightarrow> float64 \<Rightarrow> float64" where
  "fsub a b = fadd a (fneg b)"

fun fmul :: "float64 \<Rightarrow> float64 \<Rightarrow> float64" where
  "fmul NaN _ = NaN"
| "fmul _ NaN = NaN"
| "fmul (Fin m1 e1) (Fin m2 e2) = fl (m1 * m2) (e1 + e2)"
| "fmul a b =
     (if fsgn a * fsgn b = 0 then NaN
      else if 0 < fsgn a * fsgn b then PInf else NInf)"

text \<open>
  Division computes the quotient of the mantissas to at least 56 bits and keeps
  one more bit that records whether the remainder is non-zero, which is enough
  for \<open>fl\<close> to round the exact quotient correctly.
\<close>

fun fdiv :: "float64 \<Rightarrow> float64 \<Rightarrow> float64" where
  "fdiv NaN _ = NaN"
| "fdiv _ NaN = NaN"
| "fdiv (Fin m1 e1) (Fin m2 e2) =
     (if m2 = 0 then (if m1 = 0 then NaN else if 0 < m1 then PInf else NInf)
      else let s = nat (55 + bitlen \<bar>m2\<bar>);
               q = (\<bar>m1\<bar> * 2 ^ s) div \<bar>m2\<bar>;
               r = (\<bar>m1\<bar> * 2 ^ s) mod \<bar>m2\<bar>;
               n = 2 * q + (if r = 0 then 0 else 1)
           in fl (sgn m1 * sgn m2 * n) (e1 - e2 - int s - 1))"
| "fdiv (Fin m e) _ = Fin 0 0"
| "fdiv a (Fin m e) = (if 0 < fsgn a * (if m < 0 then - 1 else 1) then PInf else NInf)"
| "fdiv _ _ = NaN"

text \<open>The number a finite value denotes; infinities and NaN denote none.\<close>

definition pow2 :: "int \<Rightarrow> rat" where
  "pow2 e = (if 0 \<le> e then 2 ^ nat e else 1 / 2 ^ nat (- e))"

fun value_of :: "float64 \<Rightarrow> rat option" where
  "value_of (Fin m e) = Some (of_int m * pow2 e)"
| "value_of _ = None"

text \<open>
  Python converts an \<^verbatim>\<open>int\<close> operand of a mixed \<^verbatim>\<open>int * float\<close> operation to
  \<^verbatim>\<open>float\<close> first, correctly rounded, and raises \<^verbatim>\<open>OverflowError\<close> when the integer
  is too large for a finite binary64.
\<close>

definition py_float :: "int \<Rightarrow> py_error + float64" where
  "py_float n =
     (case fl n 0 of
        PInf \<Rightarrow> Inl OverflowError
      | NInf \<Rightarrow> Inl OverflowError
      | x \<Rightarrow> Inr x)"

text \<open>
  \<^verbatim>\<open>np.round(x)\<close> with no decimals is \<^verbatim>\<open>rint\<close>: the nearest integer, ties to even,
  still as a float; infinities and NaN pass through. \<^verbatim>\<open>int(x)\<close> truncates a finite
  float towards zero and raises \<^verbatim>\<open>OverflowError\<close> on an infinity and \<^verbatim>\<open>ValueError\<close>
  on NaN.
\<close>

fun np_round :: "float64 \<Rightarrow> float64" where
  "np_round (Fin m e) = (if 0 \<le> e then Fin m e else normal (round_shift m (nat (- e))) 0)"
| "np_round x = x"

fun py_int :: "float64 \<Rightarrow> py_error + int" where
  "py_int (Fin m e) =
     Inr (if 0 \<le> e then m * 2 ^ nat e else sgn m * (\<bar>m\<bar> div 2 ^ nat (- e)))"
| "py_int PInf = Inl OverflowError"
| "py_int NInf = Inl OverflowError"
| "py_int NaN = Inl ValueError"

subsection \<open>NumPy arrays built from Python integers\<close>

text \<open>
  \<^verbatim>\<open>np.array\<close> on a list of Python integers chooses the element type from the
  values (on a platform whose C \<^verbatim>\<open>long\<close> has 64 bits): \<^verbatim>\<open>int64\<close> when every element
  fits, \<^verbatim>\<open>uint64\<close> when every element lies in \<open>2 ^ 63 ..< 2 ^ 64\<close>, \<^verbatim>\<open>float64\<close> when
  both kinds occur, and \<^verbatim>\<open>object\<close> (Python integers kept as they are) as soon as
  one element fits neither. Adding two arrays promotes the two element types the
  same way; \<^verbatim>\<open>int64\<close> and \<^verbatim>\<open>uint64\<close> sums wrap around silently.
\<close>

datatype dtype = Int64 | UInt64 | Float64 | Object

datatype pynum = PyInt int | PyFloat float64

definition discover_dtype :: "int \<Rightarrow> dtype" where
  "discover_dtype n =
     (if - (2 ^ 63) \<le> n \<and> n < 2 ^ 63 then Int64
      else if 2 ^ 63 \<le> n \<and> n < 2 ^ 64 then UInt64
      else Object)"

fun promote_types :: "dtype \<Rightarrow> dtype \<Rightarrow> dtype" where
  "promote_types Object _ = Object"
| "promote_types _ Object = Object"
| "promote_types Int64 Int64 = Int64"
| "promote_types UInt64 UInt64 = UInt64"
| "promote_types _ _ = Float64"

definition array_dtype :: "int list \<Rightarrow> dtype" where
  "array_dtype xs =
     (case xs of
        [] \<Rightarrow> Float64
      | x # r \<Rightarrow> foldl promote_types (discover_dtype x) (map discover_dtype r))"

definition wrap_int64 :: "int \<Rightarrow> int" where
  "wrap_int64 n = (n + 2 ^ 63) mod 2 ^ 64 - 2 ^ 63"

text \<open>
  One element of \<^verbatim>\<open>np.array(B) + np.array(Y)\<close>, for arrays of element types \<open>da\<close>
  and \<open>db\<close>. In an \<^verbatim>\<open>object\<close> sum the elements are added by Python: an element that
  comes from a \<^verbatim>\<open>float64\<close> array is a float, and adding an integer to it converts
  the integer.
\<close>

definition add_element :: "dtype \<Rightarrow> dtype \<Rightarrow> int \<Rightarrow> int \<Rightarrow> py_error + pynum" where
  "add_element da db a b =
     (case promote_types da db of
        Int64 \<Rightarrow> Inr (PyInt (wrap_int64 (a + b)))
      | UInt64 \<Rightarrow> Inr (PyInt ((a + b) mod 2 ^ 64))
      | Float64 \<Rightarrow> Inr (PyFloat (fadd (fl a 0) (fl b 0)))
      | Object \<Rightarrow>
          (if da = Float64 then
             (case py_float b of
                Inl err \<Rightarrow> Inl err
              | Inr fb \<Rightarrow> Inr (PyFloat (fadd (fl a 0) fb)))
           else if db = Float64 then
             (case py_float a of
                Inl err \<Rightarrow> Inl err
              | Inr fa \<Rightarrow> Inr (PyFloat (fadd fa (fl b 0))))
           else Inr (PyInt (a + b))))"

fun collect :: "('e + 'a) list \<Rightarrow> 'e + 'a list" where
  "collect [] = Inr []"
| "collect (Inl err # _) = Inl err"
| "collect (Inr x # rest) =
     (case collect rest of Inl err \<Rightarrow> Inl err | Inr xs \<Rightarrow> Inr (x # xs))"

definition np_add_int_lists :: "int list \<Rightarrow> int list \<Rightarrow> py_error + pynum list" where
  "np_add_int_lists B Y =
     collect (map2 (add_element (array_dtype B) (array_dtype Y)) B Y)"

subsection \<open>NumPy arrays of floats\<close>

text \<open>
  The sequences given to \<^verbatim>\<open>calculate_error\<close> are modelled as \<^verbatim>\<open>float64\<close> arrays:
  that is what NumPy holds as soon as one of the two lists contains a float
  (the caller passes the uploaded actual counts, which are floats). A herd count
  given as a Python integer is represented by the float of the same value.

  A binary operation on two one-dimensional arrays broadcasts: the lengths must
  be equal unless one of them is 1, and then the single element is paired with
  every element of the other array. Anything else raises \<^verbatim>\<open>ValueError\<close>
  (operands could not be broadcast together).
\<close>

definition np_binop ::
  "(float64 \<Rightarrow> float64 \<Rightarrow> float64) \<Rightarrow> float64 list \<Rightarrow> float64 list \<Rightarrow> py_error + float64 list"
where
  "np_binop f xs ys =
     (if length xs = length ys then Inr (map2 f xs ys)
      else if length xs = 1 then Inr (map (f (hd xs)) ys)
      else if length ys = 1 then Inr (map (\<lambda>x. f x (hd ys)) xs)
      else Inl ValueError)"

text \<open>
  \<^verbatim>\<open>np.mean\<close> is the sum divided by the number of elements; on an empty array that
  is \<open>0.0 / 0\<close>, which NumPy evaluates to NaN with a warning, not an exception.
  The sum starts from zero and adds the elements in order (NumPy regroups the
  additions of arrays of eight or more elements, which can change the last bit
  of the sum and nothing else).
\<close>

definition np_mean :: "float64 list \<Rightarrow> float64" where
  "np_mean xs = fdiv (foldl fadd (Fin 0 0) xs) (fl (int (length xs)) 0)"

fun nonzero :: "float64 \<Rightarrow> bool" where
  "nonzero (Fin m e) = (m \<noteq> 0)"
| "nonzero _ = True"

definition np_any :: "bool list \<Rightarrow> bool" where
  "np_any flags = list_ex (\<lambda>b. b) flags"

text \<open>
  Indexing with a boolean mask keeps the elements whose mask entry is true; a
  mask of another length than the array raises \<^verbatim>\<open>IndexError\<close>.
\<close>

definition np_bool_index :: "'a list \<Rightarrow> bool list \<Rightarrow> py_error + 'a list" where
  "np_bool_index xs flags =
     (if length flags = length xs then Inr (map fst (filter snd (zip xs flags)))
      else Inl IndexError)"

section \<open>projection\_model.py\<close>

subsection \<open>project\_herd\_yearly\<close>

text \<open>
  One pass of the loop body, from the last elements \<open>b = B[-1]\<close> and \<open>y = Y[-1]\<close>.
  \<open>C * B[-1]\<close> converts \<open>b\<close> to a float and \<open>Y[-1] * (1 - m)\<close> converts \<open>y\<close>; either
  conversion can raise, and so can each \<^verbatim>\<open>int(np.round(...))\<close>.
\<close>

definition year_step :: "float64 \<Rightarrow> float64 \<Rightarrow> int \<Rightarrow> int \<Rightarrow> py_error + int \<times> int" where
  "year_step C m b y =
     (case py_float b of
        Inl err \<Rightarrow> Inl err
      | Inr fb \<Rightarrow>
          (case py_float y of
             Inl err \<Rightarrow> Inl err
           | Inr fy \<Rightarrow>
               (let birth_n = fmul C fb;
                    next_B_raw = fadd (fmul fb (fsub (Fin 1 0) m)) (fmul fy (fsub (Fin 1 0) m));
                    next_Y_raw = fmul birth_n (fsub (Fin 1 0) m)
                in case py_int (np_round next_B_raw) of
                     Inl err \<Rightarrow> Inl err
                   | Inr next_B \<Rightarrow>
                       (case py_int (np_round next_Y_raw) of
                          Inl err \<Rightarrow> Inl err
                        | Inr next_Y \<Rightarrow> Inr (next_B, next_Y)))))"

text \<open>
  The \<^verbatim>\<open>for n in range(1, years + 1)\<close> loop, with the number of passes still to
  run. \<open>B\<close> and \<open>Y\<close> start as \<open>[B0]\<close> and \<open>[Y0]\<close> and grow by one element per pass.
\<close>

fun projection_loop ::
  "float64 \<Rightarrow> float64 \<Rightarrow> nat \<Rightarrow> int list \<Rightarrow> int list \<Rightarrow> py_error + int list \<times> int list"
where
  "projection_loop C m 0 B Y = Inr (B, Y)"
| "projection_loop C m (Suc k) B Y =
     (case year_step C m (last B) (last Y) of
        Inl err \<Rightarrow> Inl err
      | Inr (next_B, next_Y) \<Rightarrow> projection_loop C m k (B @ [next_B]) (Y @ [next_Y]))"

text \<open>
  The returned \<^verbatim>\<open>DataFrame\<close>, by column. pandas raises \<^verbatim>\<open>ValueError\<close> when the
  columns of the dictionary do not all have the same length.
\<close>

record data_frame =
  Year :: "int list"
  Breeders :: "int list"
  Juveniles :: "int list"
  Total_Females :: "pynum list"

definition pd_DataFrame ::
  "int list \<Rightarrow> int list \<Rightarrow> int list \<Rightarrow> pynum list \<Rightarrow> py_error + data_frame"
where
  "pd_DataFrame yr B Y T =
     (if length B = length yr \<and> length Y = length yr \<and> length T = length yr
      then Inr \<lparr>Year = yr, Breeders = B, Juveniles = Y, Total_Females = T\<rparr>
      else Inl ValueError)"

text \<open>
  \<^verbatim>\<open>range(1, years + 1)\<close> runs \<open>years\<close> times, and not at all when \<open>years\<close> is
  negative; \<^verbatim>\<open>range(years + 1)\<close> is \<open>0, ..., years\<close>.
\<close>

definition project_herd_yearly ::
  "int \<Rightarrow> int \<Rightarrow> float64 \<Rightarrow> float64 \<Rightarrow> int \<Rightarrow> py_error + data_frame"
where
  "project_herd_yearly B0 Y0 C m years =
     (case projection_loop C m (nat years) [B0] [Y0] of
        Inl err \<Rightarrow> Inl err
      | Inr (B, Y) \<Rightarrow>
          (case np_add_int_lists B Y of
             Inl err \<Rightarrow> Inl err
           | Inr T \<Rightarrow> pd_DataFrame [0..years] B Y T))"

subsection \<open>calculate\_error\<close>

definition calculate_error ::
  "float64 list \<Rightarrow> float64 list \<Rightarrow> py_error + float64 \<times> float64"
where
  "calculate_error projected actual =
     (case np_binop fsub projected actual of
        Inl err \<Rightarrow> Inl err
      | Inr diff \<Rightarrow>
          (let mae = np_mean (map fabs diff);
               valid_mask = map nonzero actual
           in if \<not> np_any valid_mask then Inr (mae, Fin 0 0)
              else
                (case np_bool_index projected valid_mask of
                   Inl err \<Rightarrow> Inl err
                 | Inr pv \<Rightarrow>
                     (case np_bool_index actual valid_mask of
                        Inl err \<Rightarrow> Inl err
                      | Inr av \<Rightarrow>
                          (case np_binop fsub pv av of
                             Inl err \<Rightarrow> Inl err
                           | Inr d \<Rightarrow>
                               (case np_binop fdiv (map fabs d) av of
                                  Inl err \<Rightarrow> Inl err
                                | Inr percentage_errors \<Rightarrow>
                                    Inr (mae, fmul (np_mean percentage_errors) (Fin 25 2))))))))"

section \<open>db\_manager.py\<close>

text \<open>
  The \<^verbatim>\<open>cows\<close> table has \<^verbatim>\<open>cow_id\<close> as its primary key, so it is a map from the
  identifier to the rest of the row; the \<^verbatim>\<open>events\<close> table is the list of its rows
  in insertion order. The text columns declared \<^verbatim>\<open>NOT NULL\<close> are strings; the
  nullable \<^verbatim>\<open>mother_id\<close> is optional.
\<close>

record cow =
  sex :: string
  birth_date :: string
  status :: string
  mother_id :: "string option"
  breed :: string

record event_row =
  event_cow_id :: string
  event_type :: string
  event_date :: string
  details :: string

record database =
  cows :: "string \<rightharpoonup> cow"
  events :: "event_row list"

text \<open>
  \<^verbatim>\<open>add_new_cow\<close>: the \<^verbatim>\<open>INSERT\<close> raises \<^verbatim>\<open>sqlite3.IntegrityError\<close> when the key
  is already present; the function then returns \<^verbatim>\<open>False\<close> and nothing is committed.
\<close>

definition add_new_cow ::
  "database \<Rightarrow> string \<Rightarrow> string \<Rightarrow> string \<Rightarrow> string option \<Rightarrow> string \<Rightarrow> bool \<times> database"
where
  "add_new_cow db cow_id sx born mother brd =
     (case cows db cow_id of
        Some _ \<Rightarrow> (False, db)
      | None \<Rightarrow>
          (True,
           db\<lparr>cows := (cows db)(cow_id \<mapsto>
             \<lparr>sex = sx, birth_date = born, status = ''Active'', mother_id = mother, breed = brd\<rparr>)\<rparr>))"

text \<open>
  \<^verbatim>\<open>log_event\<close>, with today's date as a parameter. The event row is inserted
  (SQLite does not enforce the foreign key unless asked to), then
  \<^verbatim>\<open>UPDATE cows SET status = ? WHERE cow_id = ?\<close> runs with the event type itself
  as the new status when the type is \<^verbatim>\<open>'Death'\<close> or \<^verbatim>\<open>'Sale'\<close>.
\<close>

definition log_event :: "database \<Rightarrow> string \<Rightarrow> string \<Rightarrow> string \<Rightarrow> string \<Rightarrow> database" where
  "log_event db today cow_id ev_type dtl =
     (let logged = db\<lparr>events := events db @
            [\<lparr>event_cow_id = cow_id, event_type = ev_type, event_date = today, details = dtl\<rparr>]\<rparr>
      in if ev_type = ''Death'' \<or> ev_type = ''Sale'' then
           (case cows logged cow_id of
              None \<Rightarrow> logged
            | Some c \<Rightarrow> logged\<lparr>cows := (cows logged)(cow_id \<mapsto> c\<lparr>status := ev_type\<rparr>)\<rparr>)
         else logged)"

section \<open>The specification's formulas\<close>

text \<open>
  The rounding rule the specification fixes, on exact numbers: the nearest
  integer, and the even one of the two when \<open>x\<close> lies half way between them.
\<close>

definition round_half_even :: "rat \<Rightarrow> int" where
  "round_half_even x =
     (let f = \<lfloor>x\<rfloor>; d = x - of_int f
      in if d < 1 / 2 then f
         else if 1 / 2 < d then f + 1
         else if even f then f else f + 1)"



text \<open>
  The domain the specification calls valid: non-negative counts, \<open>C\<close> in \<open>(0, 1]\<close>,
  \<open>m\<close> in \<open>[0, 1)\<close> and a non-negative horizon.
\<close>

definition in_unit_left_open :: "float64 \<Rightarrow> bool" where
  "in_unit_left_open C = (case value_of C of None \<Rightarrow> False | Some c \<Rightarrow> 0 < c \<and> c \<le> 1)"

definition in_unit_right_open :: "float64 \<Rightarrow> bool" where
  "in_unit_right_open m = (case value_of m of None \<Rightarrow> False | Some r \<Rightarrow> 0 \<le> r \<and> r < 1)"

definition valid_inputs :: "int \<Rightarrow> int \<Rightarrow> float64 \<Rightarrow> float64 \<Rightarrow> int \<Rightarrow> bool" where
  "valid_inputs B0 Y0 C m years =
     (0 \<le> B0 \<and> 0 \<le> Y0 \<and> in_unit_left_open C \<and> in_unit_right_open m \<and> 0 \<le> years)"

text \<open>
  Inputs for which no step of the computation can leave the range of the
  machine numbers, whatever their signs: counts of magnitude at most \<open>2 ^ k\<close>, a
  birth rate of magnitude at most 1, a mortality between 0 and 2 (so that the
  survival factor \<open>1 - m\<close> has magnitude at most 1) and a horizon of at most
  \<open>62 - k\<close> years. A herd can at most double in a year under these rates, so
  every count stays within \<open>2 ^ 62\<close>.
\<close>

definition magnitude_le :: "float64 \<Rightarrow> nat \<Rightarrow> bool" where
  "magnitude_le x k = (case value_of x of None \<Rightarrow> False | Some v \<Rightarrow> \<bar>v\<bar> \<le> 2 ^ k)"

definition mortality_upto_two :: "float64 \<Rightarrow> bool" where
  "mortality_upto_two m = (case value_of m of None \<Rightarrow> False | Some r \<Rightarrow> 0 \<le> r \<and> r \<le> 2)"

definition bounded_inputs :: "nat \<Rightarrow> int \<Rightarrow> int \<Rightarrow> float64 \<Rightarrow> float64 \<Rightarrow> int \<Rightarrow> bool" where
  "bounded_inputs k B0 Y0 C m years =
     (\<bar>B0\<bar> \<le> 2 ^ k \<and> \<bar>Y0\<bar> \<le> 2 ^ k \<and> magnitude_le C 0 \<and> mortality_upto_two m \<and>
      0 \<le> years \<and> int k + years \<le> 62)"



section \<open>Rounding\<close>

lemma pow2_pos: "0 < pow2 e"
  by (simp add: pow2_def)

lemma pow2_nat: "0 \<le> e \<Longrightarrow> pow2 e = 2 ^ nat e"
  by (simp add: pow2_def)

lemma pow2_neg: "e < 0 \<Longrightarrow> pow2 e = 1 / 2 ^ nat (- e)"
  by (simp add: pow2_def)

lemma pow2_succ: "pow2 (e + 1) = 2 * pow2 e"
proof (cases "0 \<le> e")
  case True
  then show ?thesis by (simp add: pow2_def nat_add_distrib)
next
  case False
  then have "nat (- e) = Suc (nat (- (e + 1)))" by simp
  with False show ?thesis by (simp add: pow2_def)
qed

lemma normal_zero: "normal 0 e = Fin 0 0"
  by (subst normal.simps) simp

lemma normal_even: "m \<noteq> 0 \<Longrightarrow> even m \<Longrightarrow> normal m e = normal (m div 2) (e + 1)"
  by (subst normal.simps) simp

lemma normal_odd: "odd m \<Longrightarrow> normal m e = Fin m e"
  by (subst normal.simps) auto

lemma value_of_normal: "value_of (normal m e) = Some (of_int m * pow2 e)"
proof (induction m e rule: normal.induct)
  case (1 m e)
  show ?case
  proof (cases "m = 0")
    case True
    then show ?thesis by (simp add: normal_zero)
  next
    case nz: False
    show ?thesis
    proof (cases "even m")
      case True
      then obtain k where k: "m = 2 * k" by (auto elim: evenE)
      from nz True 1 have "value_of (normal m e) = Some (of_int (m div 2) * pow2 (e + 1))"
        by (simp add: normal_even)
      with k show ?thesis by (simp add: pow2_succ)
    next
      case False
      then show ?thesis by (simp add: normal_odd)
    qed
  qed
qed

lemma py_int_normal: "0 \<le> e \<Longrightarrow> py_int (normal n e) = Inr (n * 2 ^ nat e)"
proof (induction n e rule: normal.induct)
  case (1 m e)
  show ?case
  proof (cases "m = 0")
    case True
    then show ?thesis by (simp add: normal_zero)
  next
    case nz: False
    show ?thesis
    proof (cases "even m")
      case True
      then obtain k where k: "m = 2 * k" by (auto elim: evenE)
      from nz True 1 have "py_int (normal m e) = Inr ((m div 2) * 2 ^ nat (e + 1))"
        by (simp add: normal_even)
      with k 1(2) show ?thesis by (simp add: nat_add_distrib)
    next
      case False
      with 1(2) show ?thesis by (simp add: normal_odd)
    qed
  qed
qed

lemma round_shift_rat: "round_shift m k = round_half_even (of_int m / 2 ^ k)"
proof -
  define D :: int where "D = 2 ^ k"
  have Dpos: "0 < D" by (simp add: D_def)
  have fl: "\<lfloor>(of_int m :: rat) / of_int D\<rfloor> = m div D"
    by (rule floor_divide_of_int_eq)
  have "(of_int m :: rat) = of_int (m div D) * of_int D + of_int (m mod D)"
    by (metis div_mult_mod_eq of_int_add of_int_mult)
  with Dpos have frac: "(of_int m :: rat) / of_int D - of_int (m div D) = of_int (m mod D) / of_int D"
    by (simp add: field_simps)
  have lt: "(of_int (m mod D) / of_int D < (1::rat) / 2) = (2 * (m mod D) < D)"
  proof -
    have "(of_int (m mod D) / of_int D < (1::rat) / 2) = ((of_int (2 * (m mod D)) :: rat) < of_int D)"
      using Dpos by (simp add: field_simps)
    then show ?thesis by (simp only: of_int_less_iff)
  qed
  have gt: "((1::rat) / 2 < of_int (m mod D) / of_int D) = (D < 2 * (m mod D))"
  proof -
    have "((1::rat) / 2 < of_int (m mod D) / of_int D) = ((of_int D :: rat) < of_int (2 * (m mod D)))"
      using Dpos by (simp add: field_simps)
    then show ?thesis by (simp only: of_int_less_iff)
  qed
  have pw: "(2::rat) ^ k = of_int D" by (simp add: D_def)
  show ?thesis
    unfolding round_shift_def round_half_even_def Let_def pw fl frac lt gt D_def [symmetric]
    by simp
qed

lemma round_half_even_int: "round_half_even (of_int n) = n"
  by (simp add: round_half_even_def)

lemma py_int_np_round:
  "py_int (np_round (Fin m e)) = Inr (round_half_even (of_int m * pow2 e))"
proof (cases "0 \<le> e")
  case True
  have "of_int m * (2::rat) ^ nat e = of_int (m * 2 ^ nat e)" by simp
  with True show ?thesis by (simp add: pow2_nat round_half_even_int del: of_int_mult)
next
  case False
  then show ?thesis by (simp add: pow2_neg py_int_normal round_shift_rat)
qed


section \<open>The projection loop\<close>

lemma py_float_Inr: "py_float n = Inr f \<Longrightarrow> f = fl n 0"
  by (auto simp: py_float_def split: float64.splits)



lemma projection_loop_append:
  "projection_loop C m k B Y = Inr (B', Y') \<Longrightarrow>
   \<exists>bs ys. B' = B @ bs \<and> Y' = Y @ ys \<and> length bs = k \<and> length ys = k"
proof (induction k arbitrary: B Y)
  case 0
  then show ?case by simp
next
  case (Suc k)
  from Suc.prems obtain b y where
    step: "year_step C m (last B) (last Y) = Inr (b, y)"
    and rest: "projection_loop C m k (B @ [b]) (Y @ [y]) = Inr (B', Y')"
    by (auto split: sum.splits)
  from Suc.IH [OF rest] obtain bs ys where
    "B' = (B @ [b]) @ bs" "Y' = (Y @ [y]) @ ys" "length bs = k" "length ys = k"
    by blast
  then have "B' = B @ (b # bs) \<and> Y' = Y @ (y # ys) \<and> length (b # bs) = Suc k \<and> length (y # ys) = Suc k"
    by simp
  then show ?case by blast
qed


lemma collect_length: "collect rs = Inr xs \<Longrightarrow> length xs = length rs"
proof (induction rs arbitrary: xs)
  case Nil
  then show ?case by simp
next
  case (Cons r rs)
  then show ?case by (cases r) (auto split: sum.splits)
qed

lemma np_add_int_lists_length:
  "np_add_int_lists B Y = Inr T \<Longrightarrow> length T = min (length B) (length Y)"
  by (auto simp: np_add_int_lists_def dest: collect_length)

lemma project_herd_yearly_Inr:
  assumes "project_herd_yearly B0 Y0 C m years = Inr df"
  obtains B Y T where
    "projection_loop C m (nat years) [B0] [Y0] = Inr (B, Y)"
    "np_add_int_lists B Y = Inr T"
    "0 \<le> years"
    "df = \<lparr>Year = [0..years], Breeders = B, Juveniles = Y, Total_Females = T\<rparr>"
proof -
  from assms obtain B Y T where
    loop: "projection_loop C m (nat years) [B0] [Y0] = Inr (B, Y)"
    and tot: "np_add_int_lists B Y = Inr T"
    and frame: "pd_DataFrame [0..years] B Y T = Inr df"
    by (auto simp: project_herd_yearly_def split: sum.splits)
  from projection_loop_append [OF loop] have len: "length B = Suc (nat years)"
    by auto
  from frame have "length B = length [0..years]"
    and df: "df = \<lparr>Year = [0..years], Breeders = B, Juveniles = Y, Total_Females = T\<rparr>"
    by (auto simp: pd_DataFrame_def split: if_splits)
  with len have "0 \<le> years" by (cases "0 \<le> years") auto
  with loop tot df show thesis using that by blast
qed

section \<open>Sums of 64-bit integer arrays\<close>

lemma foldl_promote_int64:
  "list_all (\<lambda>x. - (2 ^ 63) \<le> x \<and> x < 2 ^ 63) xs \<Longrightarrow>
   foldl promote_types Int64 (map discover_dtype xs) = Int64"
  by (induction xs) (simp_all add: discover_dtype_def)

lemma array_dtype_int64:
  "xs \<noteq> [] \<Longrightarrow> list_all (\<lambda>x. - (2 ^ 63) \<le> x \<and> x < 2 ^ 63) xs \<Longrightarrow> array_dtype xs = Int64"
  by (cases xs) (simp_all add: array_dtype_def foldl_promote_int64 discover_dtype_def)

lemma collect_map_Inr: "collect (map (\<lambda>x. Inr (f x)) xs) = Inr (map f xs)"
  by (induction xs) simp_all

lemma add_element_int64:
  "add_element Int64 Int64 a b = Inr (PyInt (wrap_int64 (a + b)))"
  by (simp add: add_element_def)

lemma np_add_int64:
  assumes "array_dtype B = Int64" "array_dtype Y = Int64"
  shows "np_add_int_lists B Y = Inr (map2 (\<lambda>a b. PyInt (wrap_int64 (a + b))) B Y)"
proof -
  have "map2 (add_element Int64 Int64) B Y =
        map (\<lambda>p. Inr (case p of (a, b) \<Rightarrow> PyInt (wrap_int64 (a + b)))) (zip B Y)"
    by (simp add: add_element_int64 split_def)
  then show ?thesis
    by (simp only: np_add_int_lists_def assms collect_map_Inr)
qed

section \<open>Magnitudes: when a series is returned\<close>

lemma pow2_powi: "pow2 e = power_int 2 e"
  by (simp add: pow2_def power_int_def field_simps)

lemma pow2_add: "pow2 (a + b) = pow2 a * pow2 b"
  by (simp add: pow2_powi power_int_add)

lemma pow2_le_iff: "pow2 a \<le> pow2 b \<longleftrightarrow> a \<le> b"
proof
  assume le: "pow2 a \<le> pow2 b"
  show "a \<le> b"
  proof (rule ccontr)
    assume "\<not> a \<le> b"
    then have "b < a" by simp
    then have "pow2 b < pow2 a"
      unfolding pow2_powi by (intro power_int_strict_increasing) simp_all
    with le show False by simp
  qed
next
  assume "a \<le> b"
  then show "pow2 a \<le> pow2 b"
    unfolding pow2_powi by (intro power_int_increasing) simp_all
qed

lemma pow2_int: "pow2 (int k) = 2 ^ k"
  by (simp add: pow2_def)

lemma normal_Fin: "\<exists>m' e'. normal m e = Fin m' e' \<and> of_int m' * pow2 e' = of_int m * pow2 e"
  using value_of_normal [of m e] by (cases "normal m e") simp_all

lemma bitlen_pow2_le:
  assumes "m \<noteq> 0" "\<bar>of_int m * pow2 e\<bar> \<le> pow2 K"
  shows "e + bitlen \<bar>m\<bar> \<le> K + 1"
proof -
  from assms(1) have pos: "0 < \<bar>m\<bar>" by simp
  then have one: "1 \<le> bitlen \<bar>m\<bar>" by (simp add: bitlen_ge_iff_power)
  from bitlen_bounds [OF pos] have "2 ^ nat (bitlen \<bar>m\<bar> - 1) \<le> \<bar>m\<bar>" by simp
  then have "(of_int (2 ^ nat (bitlen \<bar>m\<bar> - 1)) :: rat) \<le> of_int \<bar>m\<bar>"
    by (simp only: of_int_le_iff)
  with one have "pow2 (bitlen \<bar>m\<bar> - 1) \<le> of_int \<bar>m\<bar>"
    by (simp add: pow2_def)
  then have "pow2 (bitlen \<bar>m\<bar> - 1) * pow2 e \<le> of_int \<bar>m\<bar> * pow2 e"
    using pow2_pos [of e] by (simp add: mult_right_mono)
  also have "\<dots> = \<bar>of_int m * pow2 e\<bar>"
    using pow2_pos [of e] by (simp add: abs_mult)
  also note assms(2)
  finally have "pow2 (bitlen \<bar>m\<bar> - 1 + e) \<le> pow2 K" by (simp add: pow2_add)
  then show ?thesis by (simp add: pow2_le_iff)
qed

lemma round_half_even_abs_le:
  assumes "\<bar>x\<bar> \<le> of_int J"
  shows "\<bar>round_half_even x\<bar> \<le> J"
proof -
  from assms have "x \<le> of_int J" "of_int (- J) \<le> x" by simp_all
  then have f: "\<lfloor>x\<rfloor> \<le> J" "- J \<le> \<lfloor>x\<rfloor>" by (simp_all add: floor_le_iff le_floor_iff del: of_int_minus)
  have up: "\<lfloor>x\<rfloor> + 1 \<le> J" if "x \<noteq> of_int \<lfloor>x\<rfloor>"
  proof -
    from that have "of_int \<lfloor>x\<rfloor> < x"
      by (metis of_int_floor_le order_le_imp_less_or_eq)
    with \<open>x \<le> of_int J\<close> have "(of_int \<lfloor>x\<rfloor> :: rat) < of_int J" by linarith
    then show ?thesis by simp
  qed
  show ?thesis
    using f up by (auto simp: round_half_even_def Let_def abs_le_iff)
qed

lemma bitlen_abs_le:
  assumes "\<bar>n\<bar> \<le> 2 ^ j"
  shows "bitlen \<bar>n\<bar> \<le> int j + 1"
proof -
  have "(0::int) < 2 ^ j" by simp
  with assms have "\<bar>n\<bar> < 2 * 2 ^ j" by linarith
  then have "\<bar>n\<bar> < 2 ^ (j + 1)" by simp
  then show ?thesis by (simp add: bitlen_le_iff_power nat_add_distrib)
qed

lemma fl_mag:
  assumes mag: "\<bar>of_int m * pow2 e\<bar> \<le> pow2 K" and K: "0 \<le> K" "K \<le> 1023"
  shows "\<exists>m' e'. fl m e = Fin m' e' \<and> \<bar>of_int m' * pow2 e'\<bar> \<le> pow2 K"
proof (cases "m = 0")
  case True
  then show ?thesis using pow2_pos [of K] by (simp add: fl_def)
next
  case nz: False
  define t where "t = max (e + bitlen \<bar>m\<bar> - 53) (- 1074)"
  have bl: "e + bitlen \<bar>m\<bar> \<le> K + 1" by (rule bitlen_pow2_le [OF nz mag])
  have tK: "t \<le> K" using bl K by (simp add: t_def)
  show ?thesis
  proof (cases "e < t")
    case False
    from bl K have "\<not> 1024 < bitlen \<bar>m\<bar> + e" by simp
    with nz False have "fl m e = normal m e"
      by (simp add: fl_def t_def [symmetric] Let_def)
    with normal_Fin [of m e] mag show ?thesis by auto
  next
    case True
    define k where "k = nat (t - e)"
    define n where "n = round_shift m k"
    define j where "j = nat (K - t)"
    have "pow2 t = pow2 (t - e) * pow2 e" by (simp flip: pow2_add)
    with True have pt: "pow2 t = 2 ^ k * pow2 e" by (simp add: k_def pow2_nat)
    have pj: "pow2 K = 2 ^ j * pow2 t"
    proof -
      have "pow2 K = pow2 (K - t) * pow2 t" by (simp flip: pow2_add)
      with tK show ?thesis by (simp add: j_def pow2_nat)
    qed
    have "\<bar>of_int m / 2 ^ k\<bar> * pow2 t = \<bar>of_int m * pow2 e\<bar>"
      using pow2_pos [of e] by (simp add: pt abs_mult)
    with mag pj have "\<bar>of_int m / 2 ^ k\<bar> * pow2 t \<le> 2 ^ j * pow2 t" by simp
    then have "\<bar>(of_int m :: rat) / 2 ^ k\<bar> \<le> 2 ^ j"
      using pow2_pos [of t] by (rule mult_right_le_imp_le)
    then have "\<bar>(of_int m :: rat) / 2 ^ k\<bar> \<le> of_int (2 ^ j)" by simp
    then have nj: "\<bar>n\<bar> \<le> 2 ^ j"
      unfolding n_def round_shift_rat by (rule round_half_even_abs_le)
    then have "(of_int \<bar>n\<bar> :: rat) \<le> of_int (2 ^ j)" by (simp only: of_int_le_iff)
    then have "\<bar>of_int n * pow2 t\<bar> \<le> 2 ^ j * pow2 t"
      using pow2_pos [of t] by (simp add: abs_mult)
    then have val: "\<bar>of_int n * pow2 t\<bar> \<le> pow2 K" by (simp add: pj)
    from bitlen_abs_le [OF nj] tK K have "\<not> 1024 < bitlen \<bar>n\<bar> + t" by (simp add: j_def)
    with nz True have "fl m e = normal n t"
      by (simp add: fl_def t_def [symmetric] Let_def n_def k_def)
    with normal_Fin [of n t] val show ?thesis by auto
  qed
qed


lemma magnitude_le_Fin: "magnitude_le (Fin m e) k = (\<bar>of_int m * pow2 e\<bar> \<le> 2 ^ k)"
  by (simp add: magnitude_le_def)

lemma magnitude_leE:
  assumes "magnitude_le x k"
  obtains m e where "x = Fin m e" "\<bar>of_int m * pow2 e\<bar> \<le> 2 ^ k"
  using assms by (cases x) (simp_all add: magnitude_le_def)

lemma mag_fl:
  assumes "\<bar>of_int m * pow2 e\<bar> \<le> 2 ^ k" "k \<le> 1023"
  shows "magnitude_le (fl m e) k"
proof -
  from assms have "\<bar>of_int m * pow2 e\<bar> \<le> pow2 (int k)" "0 \<le> int k" "int k \<le> 1023"
    by (simp_all add: pow2_int)
  from fl_mag [OF this] show ?thesis by (auto simp: magnitude_le_Fin pow2_int)
qed

lemma mag_fmul:
  assumes "magnitude_le a j" "magnitude_le b k" "j + k \<le> 1023"
  shows "magnitude_le (fmul a b) (j + k)"
proof -
  from assms(1) obtain m1 e1 where a: "a = Fin m1 e1" and va: "\<bar>of_int m1 * pow2 e1\<bar> \<le> 2 ^ j"
    by (rule magnitude_leE)
  from assms(2) obtain m2 e2 where b: "b = Fin m2 e2" and vb: "\<bar>of_int m2 * pow2 e2\<bar> \<le> 2 ^ k"
    by (rule magnitude_leE)
  have "\<bar>of_int (m1 * m2) * pow2 (e1 + e2)\<bar> = \<bar>of_int m1 * pow2 e1\<bar> * \<bar>of_int m2 * pow2 e2\<bar>"
    by (simp add: pow2_add abs_mult)
  also have "\<dots> \<le> 2 ^ j * 2 ^ k"
    using va vb by (intro mult_mono) simp_all
  finally have "\<bar>of_int (m1 * m2) * pow2 (e1 + e2)\<bar> \<le> 2 ^ (j + k)"
    by (simp add: power_add)
  from mag_fl [OF this assms(3)] show ?thesis by (simp add: a b)
qed

lemma fadd_Fin_value:
  "\<exists>M E. fadd (Fin m1 e1) (Fin m2 e2) = fl M E \<and>
         of_int M * pow2 E = of_int m1 * pow2 e1 + of_int m2 * pow2 e2"
proof -
  define e where "e = min e1 e2"
  have p1: "2 ^ nat (e1 - e) * pow2 e = pow2 e1"
  proof -
    have "pow2 e1 = pow2 (e1 - e) * pow2 e" by (simp flip: pow2_add)
    then show ?thesis by (simp add: e_def pow2_nat)
  qed
  have p2: "2 ^ nat (e2 - e) * pow2 e = pow2 e2"
  proof -
    have "pow2 e2 = pow2 (e2 - e) * pow2 e" by (simp flip: pow2_add)
    then show ?thesis by (simp add: e_def pow2_nat)
  qed
  have "of_int (m1 * 2 ^ nat (e1 - e) + m2 * 2 ^ nat (e2 - e)) * pow2 e =
        of_int m1 * (2 ^ nat (e1 - e) * pow2 e) + of_int m2 * (2 ^ nat (e2 - e) * pow2 e)"
    by (simp add: algebra_simps)
  also have "\<dots> = of_int m1 * pow2 e1 + of_int m2 * pow2 e2"
    by (simp only: p1 p2)
  finally show ?thesis
    by (intro exI [of _ "m1 * 2 ^ nat (e1 - e) + m2 * 2 ^ nat (e2 - e)"] exI [of _ e])
      (simp add: Let_def e_def)
qed

lemma mag_fadd:
  assumes "magnitude_le a k" "magnitude_le b k" "k < 1023"
  shows "magnitude_le (fadd a b) (Suc k)"
proof -
  from assms(1) obtain m1 e1 where a: "a = Fin m1 e1" and va: "\<bar>of_int m1 * pow2 e1\<bar> \<le> 2 ^ k"
    by (rule magnitude_leE)
  from assms(2) obtain m2 e2 where b: "b = Fin m2 e2" and vb: "\<bar>of_int m2 * pow2 e2\<bar> \<le> 2 ^ k"
    by (rule magnitude_leE)
  from fadd_Fin_value [of m1 e1 m2 e2] obtain M E where
    f: "fadd (Fin m1 e1) (Fin m2 e2) = fl M E"
    and v: "of_int M * pow2 E = of_int m1 * pow2 e1 + of_int m2 * pow2 e2"
    by blast
  from va vb have "\<bar>of_int M * pow2 E\<bar> \<le> 2 ^ Suc k"
    unfolding v by (simp add: abs_le_iff)
  moreover from assms(3) have "Suc k \<le> 1023" by simp
  ultimately have "magnitude_le (fl M E) (Suc k)" by (rule mag_fl)
  with f show ?thesis by (simp add: a b)
qed

lemma mag_survival:
  assumes "mortality_upto_two m"
  shows "magnitude_le (fsub (Fin 1 0) m) 0"
proof -
  from assms obtain mm em where m: "m = Fin mm em"
    and r: "0 \<le> of_int mm * pow2 em" "of_int mm * pow2 em \<le> 2"
    by (cases m) (auto simp: mortality_upto_two_def)
  from fadd_Fin_value [of 1 0 "- mm" em] obtain M E where
    f: "fadd (Fin 1 0) (Fin (- mm) em) = fl M E"
    and v: "of_int M * pow2 E = of_int 1 * pow2 0 + of_int (- mm) * pow2 em"
    by blast
  from r have "\<bar>of_int M * pow2 E\<bar> \<le> 2 ^ 0"
    unfolding v by (simp add: pow2_def abs_le_iff)
  then have "magnitude_le (fl M E) 0" by (rule mag_fl) simp
  with f show ?thesis by (simp add: m fsub_def)
qed

lemma mag_py_float:
  assumes "\<bar>n\<bar> \<le> 2 ^ k" "k \<le> 1023"
  shows "py_float n = Inr (fl n 0) \<and> magnitude_le (fl n 0) k"
proof -
  from assms(1) have "(of_int \<bar>n\<bar> :: rat) \<le> of_int (2 ^ k)" by (simp only: of_int_le_iff)
  then have "\<bar>of_int n * pow2 0\<bar> \<le> 2 ^ k" by (simp add: pow2_def)
  then have mg: "magnitude_le (fl n 0) k" using assms(2) by (rule mag_fl)
  then obtain m e where "fl n 0 = Fin m e" by (rule magnitude_leE)
  then have "py_float n = Inr (fl n 0)" by (simp add: py_float_def)
  with mg show ?thesis by simp
qed

lemma mag_py_int:
  assumes "magnitude_le x k"
  shows "\<exists>v. py_int (np_round x) = Inr v \<and> \<bar>v\<bar> \<le> 2 ^ k"
proof -
  from assms obtain m e where x: "x = Fin m e" and v: "\<bar>of_int m * pow2 e\<bar> \<le> 2 ^ k"
    by (rule magnitude_leE)
  from v have "\<bar>of_int m * pow2 e\<bar> \<le> of_int (2 ^ k)" by simp
  then have "\<bar>round_half_even (of_int m * pow2 e)\<bar> \<le> 2 ^ k" by (rule round_half_even_abs_le)
  then show ?thesis unfolding x py_int_np_round by simp
qed

lemma year_step_returns:
  assumes b: "\<bar>b\<bar> \<le> 2 ^ k" and y: "\<bar>y\<bar> \<le> 2 ^ k"
    and C: "magnitude_le C 0" and s: "magnitude_le (fsub (Fin 1 0) m) 0" and k: "k < 1023"
  shows "\<exists>b' y'. year_step C m b y = Inr (b', y') \<and> \<bar>b'\<bar> \<le> 2 ^ Suc k \<and> \<bar>y'\<bar> \<le> 2 ^ Suc k"
proof -
  from k have k': "k \<le> 1023" by simp
  from mag_py_float [OF b k'] have fb: "py_float b = Inr (fl b 0)" "magnitude_le (fl b 0) k"
    by simp_all
  from mag_py_float [OF y k'] have fy: "py_float y = Inr (fl y 0)" "magnitude_le (fl y 0) k"
    by simp_all
  from mag_fmul [OF fb(2) s] k' have sb: "magnitude_le (fmul (fl b 0) (fsub (Fin 1 0) m)) k"
    by simp
  from mag_fmul [OF fy(2) s] k' have sy: "magnitude_le (fmul (fl y 0) (fsub (Fin 1 0) m)) k"
    by simp
  from mag_fadd [OF sb sy k] obtain b' where
    B: "py_int (np_round (fadd (fmul (fl b 0) (fsub (Fin 1 0) m))
                               (fmul (fl y 0) (fsub (Fin 1 0) m)))) = Inr b'"
    and b': "\<bar>b'\<bar> \<le> 2 ^ Suc k"
    using mag_py_int by blast
  from mag_fmul [OF C fb(2)] k' have "magnitude_le (fmul C (fl b 0)) k" by simp
  from mag_fmul [OF this s] k' have "magnitude_le (fmul (fmul C (fl b 0)) (fsub (Fin 1 0) m)) k"
    by simp
  then obtain y' where
    Y: "py_int (np_round (fmul (fmul C (fl b 0)) (fsub (Fin 1 0) m))) = Inr y'"
    and y': "\<bar>y'\<bar> \<le> 2 ^ k"
    using mag_py_int by blast
  have "(2::int) ^ k \<le> 2 ^ Suc k" by simp
  with y' have "\<bar>y'\<bar> \<le> 2 ^ Suc k" by linarith
  moreover have "year_step C m b y = Inr (b', y')"
    by (simp add: year_step_def fb(1) fy(1) B Y Let_def)
  ultimately show ?thesis using b' by blast
qed

lemma projection_loop_returns:
  "B \<noteq> [] \<Longrightarrow> Y \<noteq> [] \<Longrightarrow> list_all (\<lambda>x. \<bar>x\<bar> \<le> 2 ^ k) B \<Longrightarrow> list_all (\<lambda>x. \<bar>x\<bar> \<le> 2 ^ k) Y \<Longrightarrow>
   magnitude_le C 0 \<Longrightarrow> magnitude_le (fsub (Fin 1 0) m) 0 \<Longrightarrow> k + n \<le> 1023 \<Longrightarrow>
   \<exists>B' Y'. projection_loop C m n B Y = Inr (B', Y') \<and>
     list_all (\<lambda>x. \<bar>x\<bar> \<le> 2 ^ (k + n)) B' \<and> list_all (\<lambda>x. \<bar>x\<bar> \<le> 2 ^ (k + n)) Y'"
proof (induction n arbitrary: B Y k)
  case 0
  then show ?case by simp
next
  case (Suc n)
  from Suc.prems have lb: "\<bar>last B\<bar> \<le> 2 ^ k" "\<bar>last Y\<bar> \<le> 2 ^ k" and k: "k < 1023"
    by (auto simp: list_all_iff)
  from year_step_returns [OF lb Suc.prems(5,6) k] obtain b y where
    step: "year_step C m (last B) (last Y) = Inr (b, y)"
    and by': "\<bar>b\<bar> \<le> 2 ^ Suc k" "\<bar>y\<bar> \<le> 2 ^ Suc k"
    by blast
  have up: "\<bar>x\<bar> \<le> 2 ^ Suc k" if "\<bar>x\<bar> \<le> 2 ^ k" for x :: int
  proof -
    have "(2::int) ^ k \<le> 2 ^ Suc k" by simp
    with that show ?thesis by linarith
  qed
  from Suc.prems(3,4) by' have all: "list_all (\<lambda>x. \<bar>x\<bar> \<le> 2 ^ Suc k) (B @ [b])"
    "list_all (\<lambda>x. \<bar>x\<bar> \<le> 2 ^ Suc k) (Y @ [y])"
    by (auto simp: list_all_iff intro: up)
  from Suc.prems(7) have "Suc k + n \<le> 1023" by simp
  from Suc.IH [OF _ _ all Suc.prems(5,6) this] obtain B' Y' where
    "projection_loop C m n (B @ [b]) (Y @ [y]) = Inr (B', Y')"
    "list_all (\<lambda>x. \<bar>x\<bar> \<le> 2 ^ (Suc k + n)) B'" "list_all (\<lambda>x. \<bar>x\<bar> \<le> 2 ^ (Suc k + n)) Y'"
    by auto
  with step show ?case by simp
qed

lemma project_herd_yearly_returns:
  assumes "bounded_inputs k B0 Y0 C m years"
  shows "\<exists>df. project_herd_yearly B0 Y0 C m years = Inr df"
proof -
  from assms have init: "\<bar>B0\<bar> \<le> 2 ^ k" "\<bar>Y0\<bar> \<le> 2 ^ k" and C: "magnitude_le C 0"
    and m: "mortality_upto_two m" and yr: "0 \<le> years" "int k + years \<le> 62"
    by (simp_all add: bounded_inputs_def)
  from yr have kn: "k + nat years \<le> 62" by linarith
  then have "k + nat years \<le> 1023" by simp
  from projection_loop_returns [OF _ _ _ _ C mag_survival [OF m] this, of "[B0]" "[Y0]"] init
  obtain B Y where loop: "projection_loop C m (nat years) [B0] [Y0] = Inr (B, Y)"
    and all: "list_all (\<lambda>x. \<bar>x\<bar> \<le> 2 ^ (k + nat years)) B"
             "list_all (\<lambda>x. \<bar>x\<bar> \<le> 2 ^ (k + nat years)) Y"
    by auto
  from projection_loop_append [OF loop] have len: "length B = Suc (nat years)"
    "length Y = Suc (nat years)"
    by auto
  have rng: "- (2 ^ 63) \<le> x \<and> x < 2 ^ 63" if "\<bar>x\<bar> \<le> 2 ^ (k + nat years)" for x :: int
  proof -
    from kn have "(2::int) ^ (k + nat years) \<le> 2 ^ 62" by (intro power_increasing) simp_all
    with that have "\<bar>x\<bar> \<le> 2 ^ 62" by linarith
    then have "\<bar>x\<bar> \<le> 4611686018427387904" by simp
    then have "- 9223372036854775808 \<le> x \<and> x < 9223372036854775808" by linarith
    then show ?thesis by simp
  qed
  have "list_all (\<lambda>x. - (2 ^ 63) \<le> x \<and> x < 2 ^ 63) B"
    by (rule list.pred_mono_strong [OF all(1)]) (rule rng)
  moreover have "list_all (\<lambda>x. - (2 ^ 63) \<le> x \<and> x < 2 ^ 63) Y"
    by (rule list.pred_mono_strong [OF all(2)]) (rule rng)
  ultimately have "array_dtype B = Int64" "array_dtype Y = Int64"
    using len by (auto intro!: array_dtype_int64)
  from np_add_int64 [OF this]
  have tot: "np_add_int_lists B Y = Inr (map2 (\<lambda>a b. PyInt (wrap_int64 (a + b))) B Y)" .
  from yr(1) have "length [0..years] = Suc (nat years)" by (simp add: nat_add_distrib)
  with len show ?thesis
    by (simp add: project_herd_yearly_def loop tot pd_DataFrame_def)
qed

section \<open>The recurrence and the shape of the series\<close>

text \<open>
  The literal \<^verbatim>\<open>0.05\<close> denotes the binary64 number nearest to \<open>1 / 20\<close>, which is
  also what the correctly rounded division of 1 by 20 gives.
\<close>

lemma literal_0_05: "fdiv (Fin 1 0) (Fin 5 2) = Fin 3602879701896397 (- 56)"
  by code_simp

lemma example_projection:
  "project_herd_yearly 20 10 (Fin 1 (- 1)) (Fin 3602879701896397 (- 56)) 1 =
     Inr \<lparr>Year = [0, 1], Breeders = [20, 28], Juveniles = [10, 10],
          Total_Females = [PyInt 30, PyInt 38]\<rparr>"
  by code_simp






lemma bounded_example:
  "bounded_inputs 5 20 10 (Fin 1 (- 1)) (Fin 3602879701896397 (- 56)) 1"
  by (simp add: bounded_inputs_def magnitude_le_def mortality_upto_two_def pow2_def)



lemma upto_zero_zero: "[0..0::int] = [0]"
  by (simp add: upto_rec1)

lemma discover_dtype_cases:
  "discover_dtype n = Int64 \<or> discover_dtype n = UInt64 \<or> discover_dtype n = Object"
  by (simp add: discover_dtype_def)

lemma np_add_singletons: "\<exists>t. np_add_int_lists [a] [b] = Inr [t]"
  using discover_dtype_cases [of a] discover_dtype_cases [of b]
  by (auto simp: np_add_int_lists_def array_dtype_def add_element_def)

lemma wrap_int64_id: "- (2 ^ 63) \<le> n \<Longrightarrow> n < 2 ^ 63 \<Longrightarrow> wrap_int64 n = n"
  by (simp add: wrap_int64_def)

lemma np_add_singletons_int64:
  "- (2 ^ 63) \<le> a \<Longrightarrow> a < 2 ^ 63 \<Longrightarrow> - (2 ^ 63) \<le> b \<Longrightarrow> b < 2 ^ 63 \<Longrightarrow>
   - (2 ^ 63) \<le> a + b \<Longrightarrow> a + b < 2 ^ 63 \<Longrightarrow>
   np_add_int_lists [a] [b] = Inr [PyInt (a + b)]"
  by (simp add: np_add_int_lists_def array_dtype_def add_element_def discover_dtype_def
      wrap_int64_id)

text \<open>
  Claim C2, as stated, fails in its last part: for \<open>years = 0\<close> the total of the
  single entry is the sum of two \<^verbatim>\<open>int64\<close> arrays, and for \<open>B0 = 2 ^ 63 - 1\<close> and
  \<open>Y0 = 1\<close> it is \<open>- 2 ^ 63\<close>, not the total \<open>B0 + Y0\<close> derived from the initial state.
\<close>

theorem zero_horizon_total_counterexample:
  "(0::int) \<le> 0 \<and>
   project_herd_yearly (2 ^ 63 - 1) 1 (Fin 1 (- 1)) (Fin 3602879701896397 (- 56)) 0 =
     Inr \<lparr>Year = [0], Breeders = [2 ^ 63 - 1], Juveniles = [1],
          Total_Females = [PyInt (- (2 ^ 63))]\<rparr> \<and>
   PyInt (- (2 ^ 63)) \<noteq> PyInt ((2 ^ 63 - 1) + 1)"
  by (simp add: project_herd_yearly_def np_add_int_lists_def array_dtype_def
      discover_dtype_def add_element_def wrap_int64_def pd_DataFrame_def upto_zero_zero)

text \<open>
  Claim C2, amended. For \<open>years \<ge> 0\<close> a returned series has \<open>years + 1\<close> entries in
  every column and its entry 0 is year 0 with the counts \<open>B0\<close> and \<open>Y0\<close>; a series is
  returned for all bounded inputs. For \<open>years = 0\<close> the call always returns, with
  the single entry \<open>(B0, Y0)\<close> and the total NumPy derives from the two counts,
  which is \<open>B0 + Y0\<close> when the counts and their sum fit \<^verbatim>\<open>int64\<close>.
\<close>

theorem horizon_length_and_initial_entry:
  "(0 \<le> years \<and> project_herd_yearly B0 Y0 C m years = Inr df \<longrightarrow>
      length (Year df) = nat years + 1 \<and> length (Breeders df) = nat years + 1 \<and>
      length (Juveniles df) = nat years + 1 \<and> length (Total_Females df) = nat years + 1 \<and>
      Year df ! 0 = 0 \<and> Breeders df ! 0 = B0 \<and> Juveniles df ! 0 = Y0) \<and>
   (bounded_inputs k B0 Y0 C m years \<longrightarrow>
      (\<exists>series. project_herd_yearly B0 Y0 C m years = Inr series)) \<and>
   (\<exists>t. project_herd_yearly B0 Y0 C m 0 =
           Inr \<lparr>Year = [0], Breeders = [B0], Juveniles = [Y0], Total_Females = [t]\<rparr> \<and>
         (- (2 ^ 63) \<le> B0 \<and> B0 < 2 ^ 63 \<and> - (2 ^ 63) \<le> Y0 \<and> Y0 < 2 ^ 63 \<and>
          - (2 ^ 63) \<le> B0 + Y0 \<and> B0 + Y0 < 2 ^ 63 \<longrightarrow> t = PyInt (B0 + Y0)))"
proof (intro conjI impI)
  assume a: "0 \<le> years \<and> project_herd_yearly B0 Y0 C m years = Inr df"
  then obtain B Y T where
    loop: "projection_loop C m (nat years) [B0] [Y0] = Inr (B, Y)"
    and tot: "np_add_int_lists B Y = Inr T"
    and df: "df = \<lparr>Year = [0..years], Breeders = B, Juveniles = Y, Total_Females = T\<rparr>"
    by (auto elim: project_herd_yearly_Inr)
  from projection_loop_append [OF loop] obtain bs ys where
    app: "B = [B0] @ bs" "Y = [Y0] @ ys" "length bs = nat years" "length ys = nat years"
    by blast
  from a have yr: "length [0..years] = nat years + 1" "[0..years] ! 0 = 0"
    by (simp_all add: nat_add_distrib nth_upto)
  from app np_add_int_lists_length [OF tot] have "length T = nat years + 1" by simp
  with app yr df show
    "length (Year df) = nat years + 1" "length (Breeders df) = nat years + 1"
    "length (Juveniles df) = nat years + 1" "length (Total_Females df) = nat years + 1"
    "Year df ! 0 = 0" "Breeders df ! 0 = B0" "Juveniles df ! 0 = Y0"
    by simp_all
next
  assume "bounded_inputs k B0 Y0 C m years"
  then show "\<exists>series. project_herd_yearly B0 Y0 C m years = Inr series"
    by (rule project_herd_yearly_returns)
next
  obtain t where t: "np_add_int_lists [B0] [Y0] = Inr [t]"
    using np_add_singletons by blast
  have run: "project_herd_yearly B0 Y0 C m 0 =
      Inr \<lparr>Year = [0], Breeders = [B0], Juveniles = [Y0], Total_Females = [t]\<rparr>"
    by (simp add: project_herd_yearly_def t pd_DataFrame_def upto_zero_zero)
  have "t = PyInt (B0 + Y0)"
    if "- (2 ^ 63) \<le> B0 \<and> B0 < 2 ^ 63 \<and> - (2 ^ 63) \<le> Y0 \<and> Y0 < 2 ^ 63 \<and>
        - (2 ^ 63) \<le> B0 + Y0 \<and> B0 + Y0 < 2 ^ 63"
    using that t by (simp add: np_add_singletons_int64)
  with run show "\<exists>t. project_herd_yearly B0 Y0 C m 0 =
           Inr \<lparr>Year = [0], Breeders = [B0], Juveniles = [Y0], Total_Females = [t]\<rparr> \<and>
         (- (2 ^ 63) \<le> B0 \<and> B0 < 2 ^ 63 \<and> - (2 ^ 63) \<le> Y0 \<and> Y0 < 2 ^ 63 \<and>
          - (2 ^ 63) \<le> B0 + Y0 \<and> B0 + Y0 < 2 ^ 63 \<longrightarrow> t = PyInt (B0 + Y0))"
    by blast
qed

theorem horizon_length_and_initial_entry_witness:
  "bounded_inputs 5 20 10 (Fin 1 (- 1)) (Fin 3602879701896397 (- 56)) 1 \<and>
   (\<exists>series. project_herd_yearly 20 10 (Fin 1 (- 1)) (Fin 3602879701896397 (- 56)) 1 =
      Inr series) \<and>
   length (Year \<lparr>Year = [0, 1], Breeders = [20, 28], Juveniles = [10, 10],
                 Total_Females = [PyInt 30, PyInt 38]\<rparr>) = nat 1 + 1 \<and>
   Breeders \<lparr>Year = [0, 1], Breeders = [20, 28], Juveniles = [10, 10],
             Total_Females = [PyInt 30, PyInt 38]\<rparr> ! 0 = 20 \<and>
   project_herd_yearly 20 10 (Fin 1 (- 1)) (Fin 3602879701896397 (- 56)) 0 =
     Inr \<lparr>Year = [0], Breeders = [20], Juveniles = [10], Total_Females = [PyInt 30]\<rparr>"
  using horizon_length_and_initial_entry
    [of 1 20 10 "Fin 1 (- 1)" "Fin 3602879701896397 (- 56)"
        "\<lparr>Year = [0, 1], Breeders = [20, 28], Juveniles = [10, 10],
          Total_Females = [PyInt 30, PyInt 38]\<rparr>" 5]
    example_projection bounded_example
  by auto

section \<open>Signs and the total column\<close>

lemma round_shift_nonneg: "0 \<le> m \<Longrightarrow> 0 \<le> round_shift m k"
  by (simp add: round_shift_def Let_def pos_imp_zdiv_nonneg_iff)

lemma fsgn_normal: "0 \<le> m \<Longrightarrow> 0 \<le> fsgn (normal m e)"
proof (induction m e rule: normal.induct)
  case (1 m e)
  show ?case
  proof (cases "m = 0")
    case True
    then show ?thesis by (simp add: normal_zero)
  next
    case nz: False
    show ?thesis
    proof (cases "even m")
      case True
      with nz 1 show ?thesis by (simp add: normal_even pos_imp_zdiv_nonneg_iff)
    next
      case False
      with 1(2) show ?thesis by (simp add: normal_odd sgn_if)
    qed
  qed
qed

lemma fsgn_fl: "0 \<le> m \<Longrightarrow> 0 \<le> fsgn (fl m e)"
  by (auto simp: fl_def Let_def fsgn_normal round_shift_nonneg)

lemma fsgn_fmul: "0 \<le> fsgn a \<Longrightarrow> 0 \<le> fsgn b \<Longrightarrow> 0 \<le> fsgn (fmul a b)"
  by (cases a; cases b) (simp_all add: fsgn_fl sgn_if split: if_splits)

lemma fsgn_fadd: "0 \<le> fsgn a \<Longrightarrow> 0 \<le> fsgn b \<Longrightarrow> 0 \<le> fsgn (fadd a b)"
  by (cases a; cases b) (simp_all add: fsgn_fl sgn_if Let_def split: if_splits)

lemma fsgn_one_minus:
  assumes "in_unit_right_open m"
  shows "0 \<le> fsgn (fsub (Fin 1 0) m)"
proof -
  from assms obtain mm em where m: "m = Fin mm em"
    and lt: "of_int mm * pow2 em < 1"
    by (cases m) (auto simp: in_unit_right_open_def)
  have "0 \<le> 1 * 2 ^ nat (0 - min 0 em) + (- mm) * 2 ^ nat (em - min 0 em)"
  proof (cases "0 \<le> em")
    case True
    with lt have "(of_int (mm * 2 ^ nat em) :: rat) < of_int 1" by (simp add: pow2_nat)
    then have "mm * 2 ^ nat em < 1" by (simp only: of_int_less_iff)
    with True show ?thesis by (simp add: min_def)
  next
    case False
    with lt have "(of_int mm :: rat) < of_int (2 ^ nat (- em))"
      by (simp add: pow2_neg field_simps)
    then have "mm < 2 ^ nat (- em)" by (simp only: of_int_less_iff)
    with False show ?thesis by (simp add: min_def)
  qed
  then show ?thesis by (simp add: m fsub_def Let_def fsgn_fl del: mult_minus_left)
qed

lemma fsgn_unit:
  assumes "in_unit_left_open C"
  shows "0 \<le> fsgn C"
proof (cases C)
  case (Fin mc ec)
  with assms have "0 < of_int mc * pow2 ec" by (simp add: in_unit_left_open_def)
  with pow2_pos [of ec] have "(0::rat) < of_int mc" by (simp add: zero_less_mult_iff)
  then have "0 < mc" by simp
  with Fin show ?thesis by simp
qed (use assms in \<open>auto simp: in_unit_left_open_def\<close>)

lemma round_half_even_nonneg: "0 \<le> x \<Longrightarrow> 0 \<le> round_half_even x"
  by (auto simp: round_half_even_def Let_def)

lemma py_int_np_round_nonneg:
  assumes "py_int (np_round x) = Inr v" "0 \<le> fsgn x"
  shows "0 \<le> v"
proof (cases x)
  case (Fin m e)
  with assms(2) have "0 \<le> m" by (simp add: sgn_if split: if_splits)
  then have "(0::rat) \<le> of_int m * pow2 e"
    using pow2_pos [of e] by (simp add: zero_le_mult_iff)
  then have "0 \<le> round_half_even (of_int m * pow2 e)" by (rule round_half_even_nonneg)
  moreover from assms(1) Fin have "v = round_half_even (of_int m * pow2 e)"
    by (simp only: py_int_np_round) simp
  ultimately show ?thesis by simp
qed (use assms in auto)

lemma year_step_nonneg:
  assumes "year_step C m b y = Inr (b', y')" "0 \<le> b" "0 \<le> y"
    and "0 \<le> fsgn C" "0 \<le> fsgn (fsub (Fin 1 0) m)"
  shows "0 \<le> b' \<and> 0 \<le> y'"
proof -
  from assms(1) obtain fb fy where fb: "py_float b = Inr fb" and fy: "py_float y = Inr fy"
    and B: "py_int (np_round (fadd (fmul fb (fsub (Fin 1 0) m)) (fmul fy (fsub (Fin 1 0) m)))) = Inr b'"
    and Y: "py_int (np_round (fmul (fmul C fb) (fsub (Fin 1 0) m))) = Inr y'"
    by (auto simp: year_step_def Let_def split: sum.splits)
  from fb fy assms(2,3) have s: "0 \<le> fsgn fb" "0 \<le> fsgn fy"
    by (auto dest!: py_float_Inr simp: fsgn_fl)
  from B s assms(5) have "0 \<le> b'"
    by (intro py_int_np_round_nonneg [OF B] fsgn_fadd fsgn_fmul)
  moreover from Y s assms(4,5) have "0 \<le> y'"
    by (intro py_int_np_round_nonneg [OF Y] fsgn_fmul)
  ultimately show ?thesis by simp
qed

lemma projection_loop_nonneg:
  "projection_loop C m k B Y = Inr (B', Y') \<Longrightarrow> B \<noteq> [] \<Longrightarrow> Y \<noteq> [] \<Longrightarrow>
   list_all (\<lambda>x. 0 \<le> x) B \<Longrightarrow> list_all (\<lambda>x. 0 \<le> x) Y \<Longrightarrow>
   0 \<le> fsgn C \<Longrightarrow> 0 \<le> fsgn (fsub (Fin 1 0) m) \<Longrightarrow>
   list_all (\<lambda>x. 0 \<le> x) B' \<and> list_all (\<lambda>x. 0 \<le> x) Y'"
proof (induction k arbitrary: B Y)
  case 0
  then show ?case by simp
next
  case (Suc k)
  from Suc.prems(1) obtain b y where
    step: "year_step C m (last B) (last Y) = Inr (b, y)"
    and rest: "projection_loop C m k (B @ [b]) (Y @ [y]) = Inr (B', Y')"
    by (auto split: sum.splits)
  from Suc.prems have "0 \<le> last B" "0 \<le> last Y"
    by (auto simp: list_all_iff)
  from year_step_nonneg [OF step this Suc.prems(6,7)] have "0 \<le> b" "0 \<le> y" by simp_all
  with Suc.prems have "list_all (\<lambda>x. 0 \<le> x) (B @ [b])" "list_all (\<lambda>x. 0 \<le> x) (Y @ [y])"
    by simp_all
  with Suc.IH [OF rest] Suc.prems(6,7) show ?case by simp
qed

section \<open>The valid domain\<close>

lemma valid_example: "valid_inputs (2 ^ 62) (2 ^ 62) (Fin 1 (- 1)) (Fin 3602879701896397 (- 56)) 0"
  by (simp add: valid_inputs_def in_unit_left_open_def in_unit_right_open_def pow2_def)

lemma valid_example_small: "valid_inputs 20 10 (Fin 1 (- 1)) (Fin 3602879701896397 (- 56)) 1"
  by (simp add: valid_inputs_def in_unit_left_open_def in_unit_right_open_def pow2_def)

text \<open>
  Claim C7, as stated, fails: the total column is the sum of two \<^verbatim>\<open>int64\<close> arrays,
  and for the valid input \<open>B0 = Y0 = 2 ^ 62\<close> with \<open>years = 0\<close> it holds \<open>- 2 ^ 63\<close>,
  which is negative and is not \<open>B0 + Y0\<close>.
\<close>

theorem total_wraps_counterexample:
  "valid_inputs (2 ^ 62) (2 ^ 62) (Fin 1 (- 1)) (Fin 3602879701896397 (- 56)) 0 \<and>
   project_herd_yearly (2 ^ 62) (2 ^ 62) (Fin 1 (- 1)) (Fin 3602879701896397 (- 56)) 0 =
     Inr \<lparr>Year = [0], Breeders = [2 ^ 62], Juveniles = [2 ^ 62],
          Total_Females = [PyInt (- (2 ^ 63))]\<rparr> \<and>
   PyInt (- (2 ^ 63)) \<noteq> PyInt (2 ^ 62 + 2 ^ 62)"
proof -
  have "project_herd_yearly (2 ^ 62) (2 ^ 62) (Fin 1 (- 1)) (Fin 3602879701896397 (- 56)) 0 =
     Inr \<lparr>Year = [0], Breeders = [2 ^ 62], Juveniles = [2 ^ 62],
          Total_Females = [PyInt (- (2 ^ 63))]\<rparr>"
    by (simp add: project_herd_yearly_def np_add_int_lists_def array_dtype_def
        discover_dtype_def add_element_def wrap_int64_def pd_DataFrame_def upto_zero_zero)
  with valid_example show ?thesis by simp
qed

text \<open>
  Claim C7, amended. For a valid input, every breeder and juvenile count of a
  returned series is non-negative, and the total of a year is breeders plus
  juveniles of that year when every year's sum of the series is below \<open>2 ^ 63\<close>.
\<close>

theorem counts_nonnegative_total_derived:
  "valid_inputs B0 Y0 C m years \<and> project_herd_yearly B0 Y0 C m years = Inr df \<and>
   n \<le> nat years \<longrightarrow>
     0 \<le> Breeders df ! n \<and> 0 \<le> Juveniles df ! n \<and>
     (list_all (\<lambda>(b, y). b + y < 2 ^ 63) (zip (Breeders df) (Juveniles df)) \<longrightarrow>
        Total_Females df ! n = PyInt (Breeders df ! n + Juveniles df ! n))"
proof (intro impI, elim conjE)
  assume valid: "valid_inputs B0 Y0 C m years"
    and run: "project_herd_yearly B0 Y0 C m years = Inr df"
    and n: "n \<le> nat years"
  from run obtain B Y T where
    loop: "projection_loop C m (nat years) [B0] [Y0] = Inr (B, Y)"
    and tot: "np_add_int_lists B Y = Inr T"
    and df: "df = \<lparr>Year = [0..years], Breeders = B, Juveniles = Y, Total_Females = T\<rparr>"
    by (rule project_herd_yearly_Inr)
  from projection_loop_append [OF loop] have len: "length B = Suc (nat years)" "length Y = Suc (nat years)"
    by auto
  from valid have sg: "0 \<le> fsgn C" "0 \<le> fsgn (fsub (Fin 1 0) m)" and init: "0 \<le> B0" "0 \<le> Y0"
    by (simp_all add: valid_inputs_def fsgn_unit fsgn_one_minus)
  from projection_loop_nonneg [OF loop _ _ _ _ sg] init
  have nn: "list_all (\<lambda>x. 0 \<le> x) B" "list_all (\<lambda>x. 0 \<le> x) Y" by simp_all
  with n len have pos: "0 \<le> B ! n" "0 \<le> Y ! n" by (simp_all add: list_all_length)
  have "T ! n = PyInt (B ! n + Y ! n)" if small: "list_all (\<lambda>(b, y). b + y < 2 ^ 63) (zip B Y)"
  proof -
    have rng: "- (2 ^ 63) \<le> B ! i \<and> B ! i < 2 ^ 63 \<and> - (2 ^ 63) \<le> Y ! i \<and> Y ! i < 2 ^ 63 \<and>
               B ! i + Y ! i < 2 ^ 63" if "i < Suc (nat years)" for i
    proof -
      from that len nn have "0 \<le> B ! i" "0 \<le> Y ! i" by (simp_all add: list_all_length)
      moreover from that len small have "B ! i + Y ! i < 2 ^ 63" by (simp add: list_all_length)
      ultimately show ?thesis by simp
    qed
    from rng len have "list_all (\<lambda>x. - (2 ^ 63) \<le> x \<and> x < 2 ^ 63) B"
      "list_all (\<lambda>x. - (2 ^ 63) \<le> x \<and> x < 2 ^ 63) Y"
      by (simp_all add: list_all_length)
    with len have "array_dtype B = Int64" "array_dtype Y = Int64"
      by (auto intro!: array_dtype_int64)
    from np_add_int64 [OF this] tot
    have T: "T = map2 (\<lambda>a b. PyInt (wrap_int64 (a + b))) B Y" by simp
    from rng [of n] n pos have "wrap_int64 (B ! n + Y ! n) = B ! n + Y ! n"
      by (intro wrap_int64_id) simp_all
    with T n len show ?thesis by simp
  qed
  with pos df show "0 \<le> Breeders df ! n \<and> 0 \<le> Juveniles df ! n \<and>
     (list_all (\<lambda>(b, y). b + y < 2 ^ 63) (zip (Breeders df) (Juveniles df)) \<longrightarrow>
        Total_Females df ! n = PyInt (Breeders df ! n + Juveniles df ! n))"
    by simp
qed

theorem counts_nonnegative_total_derived_witness:
  "valid_inputs 20 10 (Fin 1 (- 1)) (Fin 3602879701896397 (- 56)) 1 \<and>
   (case project_herd_yearly 20 10 (Fin 1 (- 1)) (Fin 3602879701896397 (- 56)) 1 of
      Inl err \<Rightarrow> False
    | Inr df \<Rightarrow>
        0 \<le> Breeders df ! 1 \<and> 0 \<le> Juveniles df ! 1 \<and>
        Total_Females df ! 1 = PyInt (Breeders df ! 1 + Juveniles df ! 1))"
  using counts_nonnegative_total_derived
    [of 20 10 "Fin 1 (- 1)" "Fin 3602879701896397 (- 56)" 1
        "\<lparr>Year = [0, 1], Breeders = [20, 28], Juveniles = [10, 10],
          Total_Females = [PyInt 30, PyInt 38]\<rparr>" 1]
    valid_example_small example_projection
  by simp

section \<open>Inputs outside the valid domain\<close>

text \<open>
  Claim C5, as stated, fails: the function validates nothing. A negative breeder
  count with \<open>years = 0\<close> comes back as the series; a mortality of 1.5 is accepted
  and produces negative counts.
\<close>

theorem negative_counts_accepted_counterexample:
  "project_herd_yearly (- 5) 0 (Fin 1 (- 1)) (Fin 3602879701896397 (- 56)) 0 =
     Inr \<lparr>Year = [0], Breeders = [- 5], Juveniles = [0], Total_Females = [PyInt (- 5)]\<rparr> \<and>
   project_herd_yearly 20 10 (Fin 1 (- 1)) (Fin 3 (- 1)) 1 =
     Inr \<lparr>Year = [0, 1], Breeders = [20, - 15], Juveniles = [10, - 5],
          Total_Females = [PyInt 30, PyInt (- 20)]\<rparr>"
  by code_simp

lemma example_infinite_mortality:
  "project_herd_yearly 20 10 (Fin 1 (- 1)) PInf 1 = Inl OverflowError"
  by code_simp

lemma bounded_example_negative:
  "bounded_inputs 5 (- 20) (- 10) (Fin 1 (- 1)) (Fin 3 (- 1)) 2"
  by (simp add: bounded_inputs_def magnitude_le_def mortality_upto_two_def pow2_def)

text \<open>
  Claim C5, amended. A negative \<open>years\<close> makes the call fail: the year column is
  empty, the other columns hold the initial entry, and pandas raises
  \<^verbatim>\<open>ValueError\<close>. Negative counts and a mortality of 1 or more are not rejected:
  every call with bounded inputs, which may have negative counts and a mortality
  up to 2, returns a series, and so does every call with \<open>years = 0\<close>. What can
  still fail is the arithmetic: with an infinite \<open>m\<close> and one year, \<^verbatim>\<open>int()\<close> raises
  \<^verbatim>\<open>OverflowError\<close>.
\<close>

theorem negative_years_fail:
  "(years < 0 \<longrightarrow> project_herd_yearly B0 Y0 C m years = Inl ValueError) \<and>
   (bounded_inputs k B0 Y0 C m years \<longrightarrow>
      (\<exists>series. project_herd_yearly B0 Y0 C m years = Inr series)) \<and>
   (\<exists>series. project_herd_yearly B0 Y0 C m 0 = Inr series) \<and>
   project_herd_yearly 20 10 (Fin 1 (- 1)) PInf 1 = Inl OverflowError"
proof (intro conjI impI)
  obtain t where t: "np_add_int_lists [B0] [Y0] = Inr [t]"
    using np_add_singletons by blast
  show "project_herd_yearly B0 Y0 C m years = Inl ValueError" if "years < 0"
    using that by (simp add: project_herd_yearly_def t pd_DataFrame_def)
  show "\<exists>series. project_herd_yearly B0 Y0 C m 0 = Inr series"
    by (simp add: project_herd_yearly_def t pd_DataFrame_def upto_zero_zero)
  show "\<exists>series. project_herd_yearly B0 Y0 C m years = Inr series"
    if "bounded_inputs k B0 Y0 C m years"
    using that by (rule project_herd_yearly_returns)
  show "project_herd_yearly 20 10 (Fin 1 (- 1)) PInf 1 = Inl OverflowError"
    by (rule example_infinite_mortality)
qed

theorem negative_years_fail_witness:
  "project_herd_yearly 20 10 (Fin 1 (- 1)) (Fin 3602879701896397 (- 56)) (- 1) = Inl ValueError \<and>
   bounded_inputs 5 (- 20) (- 10) (Fin 1 (- 1)) (Fin 3 (- 1)) 2 \<and>
   (\<exists>series. project_herd_yearly (- 20) (- 10) (Fin 1 (- 1)) (Fin 3 (- 1)) 2 = Inr series)"
  using negative_years_fail [of "- 1" 20 10 "Fin 1 (- 1)" "Fin 3602879701896397 (- 56)" 0]
    negative_years_fail [of 2 "- 20" "- 10" "Fin 1 (- 1)" "Fin 3 (- 1)" 5]
    bounded_example_negative
  by simp

section \<open>The error summaries\<close>

















text \<open>
  Claim C6. On two empty sequences the call should fail or return \<open>(0.0, 0.0)\<close>.
  The code guards the percentage error against an empty selection but not the
  mean absolute error: it returns NaN for the MAE, with \<open>0.0\<close> for the MAPE.
\<close>

theorem empty_sample_gives_nan:
  "calculate_error [] [] = Inr (NaN, Fin 0 0)"
  by code_simp

section \<open>The cow records\<close>

lemma log_event_other_cows:
  "other \<noteq> cow_id \<Longrightarrow> cows (log_event db today cow_id ev_type dtl) other = cows db other"
  by (simp add: log_event_def Let_def split: option.splits)

lemma log_event_status:
  "cows db cow_id = Some c \<Longrightarrow> ev_type = ''Death'' \<or> ev_type = ''Sale'' \<Longrightarrow>
   cows (log_event db today cow_id ev_type dtl) cow_id = Some (c\<lparr>status := ev_type\<rparr>)"
  by (simp add: log_event_def Let_def)

text \<open>
  Claim C9. Every status is one of Active, Sold and Dead, and logging a Death or a
  Sale event moves the animal to Dead or to Sold. The code stores the event type
  itself: after a Death event on an active cow the stored status is the string
  \<^verbatim>\<open>Death\<close>, which is none of the three (the schema comment of the \<^verbatim>\<open>status\<close>
  column names Active, Sold, Dead). The other cows are untouched
  (\<open>log_event_other_cows\<close>).
\<close>

theorem log_event_death_sets_status_death:
  "map_option status
     (cows (log_event
        \<lparr>cows = [''UEMBU-001'' \<mapsto>
           \<lparr>sex = ''Female'', birth_date = ''2024-03-01'', status = ''Active'', mother_id = None,
            breed = ''N/A''\<rparr>], events = []\<rparr>
        ''2025-06-30'' ''UEMBU-001'' ''Death'' ''Illness'') ''UEMBU-001'') = Some ''Death''"
  by (simp add: log_event_def)

text \<open>
  Claim C10. \<^verbatim>\<open>add_new_cow\<close> stores the new animal with status Active and returns
  \<^verbatim>\<open>True\<close>; when the identifier is already a key of the table it returns \<^verbatim>\<open>False\<close>
  and the database is the one it was given.
\<close>

theorem add_new_cow_insert_or_reject:
  "(cows db cow_id = None \<longrightarrow>
      add_new_cow db cow_id sx born mother brd =
        (True, db\<lparr>cows := (cows db)(cow_id \<mapsto>
           \<lparr>sex = sx, birth_date = born, status = ''Active'', mother_id = mother, breed = brd\<rparr>)\<rparr>)) \<and>
   (cows db cow_id \<noteq> None \<longrightarrow>
      add_new_cow db cow_id sx born mother brd = (False, db))"
  by (auto simp: add_new_cow_def)

theorem add_new_cow_insert_or_reject_witness:
  "add_new_cow \<lparr>cows = Map.empty, events = []\<rparr> ''UEMBU-001'' ''Female'' ''2024-03-01'' None ''N/A'' =
     (True, \<lparr>cows = [''UEMBU-001'' \<mapsto>
        \<lparr>sex = ''Female'', birth_date = ''2024-03-01'', status = ''Active'', mother_id = None,
         breed = ''N/A''\<rparr>], events = []\<rparr>) \<and>
   add_new_cow
     \<lparr>cows = [''UEMBU-001'' \<mapsto>
        \<lparr>sex = ''Female'', birth_date = ''2024-03-01'', status = ''Sale'', mother_id = None,
         breed = ''N/A''\<rparr>], events = []\<rparr>
     ''UEMBU-001'' ''Male'' ''2025-01-01'' None ''Boran'' =
     (False,
      \<lparr>cows = [''UEMBU-001'' \<mapsto>
        \<lparr>sex = ''Female'', birth_date = ''2024-03-01'', status = ''Sale'', mother_id = None,
         breed = ''N/A''\<rparr>], events = []\<rparr>)"
  using add_new_cow_insert_or_reject
          [of "\<lparr>cows = Map.empty, events = []\<rparr>" "''UEMBU-001''" "''Female''" "''2024-03-01''"
              None "''N/A''"]
        add_new_cow_insert_or_reject
          [of "\<lparr>cows = [''UEMBU-001'' \<mapsto>
                 \<lparr>sex = ''Female'', birth_date = ''2024-03-01'', status = ''Sale'', mother_id = None,
                  breed = ''N/A''\<rparr>], events = []\<rparr>"
              "''UEMBU-001''" "''Male''" "''2025-01-01''" None "''Boran''"]
  by simp

end
